theory Spec2Isabelle
  imports Main
begin

section \<open>Bytes, strings, errors and panics\<close>

text \<open>
  A Go \<^verbatim>\<open>byte\<close> is an 8-bit value and a Go \<^verbatim>\<open>string\<close> is a sequence of bytes, so
  both the message buffer and the strings cut out of it are lists of \<^typ>\<open>char\<close>
  (which has exactly 256 values). The conversion \<^verbatim>\<open>string(buf)\<close> is the identity.
\<close>

type_synonym byte = char

text \<open>The boundary constants of \<^verbatim>\<open>message.go\<close>.\<close>

definition CR :: byte where "CR = CHR 0x0D"
definition LF :: byte where "LF = CHR 0x0A"
definition FF :: byte where "FF = CHR 0x0C"
definition NB :: byte where "NB = CHR 0x00"

text \<open>
  \<^verbatim>\<open>unicode.IsSpace(rune(b))\<close> for a byte \<^verbatim>\<open>b\<close>: the rune is in the Latin-1 range, where
  the white space characters are tab, line feed, vertical tab, form feed, carriage
  return, space, U+0085 (NEL) and U+00A0 (NBSP).
\<close>

definition IsSpace :: "byte \<Rightarrow> bool" where
  "IsSpace b \<longleftrightarrow>
     b = CHR 0x09 \<or> b = CHR 0x0A \<or> b = CHR 0x0B \<or> b = CHR 0x0C \<or> b = CHR 0x0D \<or>
     b = CHR 0x20 \<or> b = CHR 0x85 \<or> b = CHR 0xA0"

text \<open>
  Error values. \<^verbatim>\<open>io.EOF\<close> is the only error value \<^verbatim>\<open>message.go\<close> creates; the four
  others are the per-level "index out of range" failures of the field navigator.
\<close>

datatype error =
    EOF
  | FieldOutOfRange
  | RepetitionOutOfRange
  | ComponentOutOfRange
  | SubComponentOutOfRange

text \<open>
  Run-time panics: an index beyond the length of a slice, a field read through a nil
  pointer, and the two panics of package \<^verbatim>\<open>reflect\<close> that \<^verbatim>\<open>Unmarshal\<close> can raise
  (the target is not a non-nil pointer to a struct; \<^verbatim>\<open>SetString\<close> on a value whose
  kind is not string). A function that can panic returns \<open>panic + 'a\<close>.
\<close>

datatype panic =
    IndexOutOfRange
  | NilDereference
  | NotPointerToStruct
  | SetStringOnNonString

section \<open>Segments\<close>

text \<open>
  Modelled from the spec: the file that declares \<^verbatim>\<open>Segment\<close>, \<^verbatim>\<open>newSegment\<close>,
  \<^verbatim>\<open>Type\<close>, \<^verbatim>\<open>GetSubComponent\<close> and \<^verbatim>\<open>String\<close> is not among the sources. A segment is
  "an immutable raw byte span plus a reference to the owning message's delimiter
  set"; the order of the delimiters is the order of the arguments in the call
  \<^verbatim>\<open>newSegment(m.fieldSep, m.compSep, m.subCompSep, m.repeat, m.escape, buf)\<close>.
\<close>

record Segment =
  seg_fieldSep :: byte
  seg_compSep :: byte
  seg_subCompSep :: byte
  seg_repeat :: byte
  seg_escape :: byte
  seg_data :: "byte list"

definition newSegment :: "byte \<Rightarrow> byte \<Rightarrow> byte \<Rightarrow> byte \<Rightarrow> byte \<Rightarrow> byte list \<Rightarrow> Segment" where
  "newSegment fs cs scs rp es buf =
     \<lparr>seg_fieldSep = fs, seg_compSep = cs, seg_subCompSep = scs, seg_repeat = rp,
      seg_escape = es, seg_data = buf\<rparr>"

text \<open>The zero value \<^verbatim>\<open>Segment{}\<close>: every delimiter is the null byte, the data is empty.\<close>

definition zeroSegment :: Segment where
  "zeroSegment = newSegment NB NB NB NB NB []"

text \<open>
  Splitting a text at every occurrence of a one-byte separator, left to right. The
  result always has at least one element; a text without the separator is its own
  single element.
\<close>

fun split_on :: "byte \<Rightarrow> byte list \<Rightarrow> byte list list" where
  "split_on sep [] = [] # []"
| "split_on sep (b # bs) =
     (if b = sep then [] # split_on sep bs
      else (case split_on sep bs of
              [] \<Rightarrow> [b] # []
            | p # ps \<Rightarrow> (b # p) # ps))"

text \<open>
  Modelled from the spec: "Split the raw segment bytes on the field separator. The
  resulting ordered sequence's element 0 is always the segment's tag itself (the bytes
  preceding the first occurrence of the field separator)", and a segment's "type is
  the first field's literal text".
\<close>

definition fields :: "Segment \<Rightarrow> byte list list" where
  "fields s = split_on (seg_fieldSep s) (seg_data s)"

definition Type :: "Segment \<Rightarrow> string" where
  "Type s = (case fields s of [] \<Rightarrow> [] | t # _ \<Rightarrow> t)"

text \<open>
  Modelled from the spec: step 7 of the navigator, "un-escape any escape-delimited
  literal sequences in the final text (sequences bounded by the escape character
  representing a literal field/component/repetition/subcomponent/escape character)".
  The spec does not list the codes; the model takes the letters of HL7 version 2
  (F, S, T, R, E). A text without the escape byte is returned as it is.
\<close>

definition escape_code :: "Segment \<Rightarrow> byte \<Rightarrow> byte option" where
  "escape_code s c =
     (if c = CHR ''F'' then Some (seg_fieldSep s)
      else if c = CHR ''S'' then Some (seg_compSep s)
      else if c = CHR ''T'' then Some (seg_subCompSep s)
      else if c = CHR ''R'' then Some (seg_repeat s)
      else if c = CHR ''E'' then Some (seg_escape s)
      else None)"

fun unescape :: "Segment \<Rightarrow> byte list \<Rightarrow> byte list" where
  "unescape s [] = []"
| "unescape s [a] = [a]"
| "unescape s [a, b] = [a, b]"
| "unescape s (a # c # b # rest) =
     (if a = seg_escape s \<and> b = seg_escape s then
        (case escape_code s c of
           Some d \<Rightarrow> d # unescape s rest
         | None \<Rightarrow> a # unescape s (c # b # rest))
      else a # unescape s (c # b # rest))"

text \<open>Element \<open>i\<close> of a sequence, or the failure of that level when \<open>i\<close> is out of range.\<close>

definition select :: "'a list \<Rightarrow> nat \<Rightarrow> error \<Rightarrow> error + 'a" where
  "select xs i e = (if i < length xs then Inr (xs ! i) else Inl e)"

text \<open>
  Modelled from the spec: the field hierarchy navigator (steps 1 to 7 of its
  contract). Field 0 is the tag text whatever the other indices are; field 1 of the
  header segment (tag \<^verbatim>\<open>MSH\<close>) is the encoding-characters field, "the literal 4
  remaining separator characters", reconstructed from the delimiter set in header
  order; every other field is selected from the split on the field separator, then a
  repetition, a component and a subcomponent are selected, each level failing with its
  own error when its index is out of range. Indices are non-negative. The result is
  the Go pair of the text and the error; on failure the text is empty.
\<close>

definition GetSubComponent ::
  "Segment \<Rightarrow> nat \<Rightarrow> nat \<Rightarrow> nat \<Rightarrow> nat \<Rightarrow> string \<times> error option" where
  "GetSubComponent s f r c sc =
     (if f = 0 then (Type s, None)
      else if Type s = ''MSH'' \<and> f = 1 then
        ([seg_compSep s, seg_repeat s, seg_escape s, seg_subCompSep s], None)
      else
        (case select (fields s) f FieldOutOfRange of
           Inl e \<Rightarrow> ([], Some e)
         | Inr ft \<Rightarrow>
             (case select (split_on (seg_repeat s) ft) r RepetitionOutOfRange of
                Inl e \<Rightarrow> ([], Some e)
              | Inr rt \<Rightarrow>
                  (case select (split_on (seg_compSep s) rt) c ComponentOutOfRange of
                     Inl e \<Rightarrow> ([], Some e)
                   | Inr ct \<Rightarrow>
                       (case select (split_on (seg_subCompSep s) ct) sc
                               SubComponentOutOfRange of
                          Inl e \<Rightarrow> ([], Some e)
                        | Inr t \<Rightarrow> (unescape s t, None))))))"

section \<open>Locations\<close>

text \<open>
  Modelled from the spec: the file that declares \<^verbatim>\<open>Location\<close> and \<^verbatim>\<open>NewLocation\<close> is
  not among the sources (only its test is). A location is the 4-tuple of a segment
  tag and three non-negative indices. An address has the form
  \<^verbatim>\<open>TAG.field[.component[.subcomponent]]\<close>: "the tag is the leading token; field index
  is the required second token, parsed as a non-negative integer; component and
  subcomponent are optional trailing tokens, defaulting to 0 when omitted. Fails if
  the tag token or the field-index token is missing or the field-index token is not a
  valid non-negative integer. Component/subcomponent tokens, if present, must also be
  valid non-negative integers." \<^verbatim>\<open>NewLocation\<close> returns a pointer and nothing else
  (\<^verbatim>\<open>m.Get(NewLocation(loc))\<close>), so failure is the nil pointer, \<open>None\<close>.
\<close>

record Location =
  Segment :: string
  FieldSeq :: nat
  Comp :: nat
  SubComp :: nat

definition is_digit :: "char \<Rightarrow> bool" where
  "is_digit c \<longleftrightarrow> (48::nat) \<le> of_char c \<and> of_char c \<le> (57::nat)"

definition parse_index :: "string \<Rightarrow> nat option" where
  "parse_index s =
     (if s \<noteq> [] \<and> list_all is_digit s
      then Some (foldl (\<lambda>n c. 10 * n + (of_char c - 48)) 0 s)
      else None)"

definition NewLocation :: "string \<Rightarrow> Location option" where
  "NewLocation l =
     (case split_on (CHR ''.'') l of
        tag # fld # rest \<Rightarrow>
          (if tag = [] then None
           else
             (case parse_index fld of
                None \<Rightarrow> None
              | Some f \<Rightarrow>
                  (case rest of
                     [] \<Rightarrow> Some \<lparr>Segment = tag, FieldSeq = f, Comp = 0, SubComp = 0\<rparr>
                   | c # rest' \<Rightarrow>
                       (case parse_index c of
                          None \<Rightarrow> None
                        | Some cv \<Rightarrow>
                            (case rest' of
                               [] \<Rightarrow> Some \<lparr>Segment = tag, FieldSeq = f, Comp = cv, SubComp = 0\<rparr>
                             | sc # _ \<Rightarrow>
                                 (case parse_index sc of
                                    None \<Rightarrow> None
                                  | Some sv \<Rightarrow>
                                      Some \<lparr>Segment = tag, FieldSeq = f, Comp = cv,
                                            SubComp = sv\<rparr>))))))
      | _ \<Rightarrow> None)"

section \<open>Messages\<close>

text \<open>
  The struct \<^verbatim>\<open>Message\<close>. The map \<^verbatim>\<open>segments\<close> is a partial map from tags to ordered
  sequences; a nil map and an empty map read alike and are both \<open>Map.empty\<close>. The
  \<^verbatim>\<open>bufio.Reader\<close> over the in-memory buffer is the list of the bytes not yet read:
  \<^verbatim>\<open>ReadByte\<close> takes the head, and reports \<^verbatim>\<open>io.EOF\<close> (its only error on a buffer)
  on the empty list. The mutex serialises concurrent callers; the model is sequential
  and passes the message in and out of every operation that advances the reader.
\<close>

record Message =
  segments :: "string \<rightharpoonup> Segment list"
  reader :: "byte list"
  fieldSep :: byte
  compSep :: byte
  subCompSep :: byte
  repeat :: byte
  escape :: byte

text \<open>
  \<^verbatim>\<open>NewMessage\<close> returns the Go pair of a pointer (nil is \<open>None\<close>) and an error (nil
  is \<open>None\<close>).
\<close>

definition NewMessage :: "byte list \<Rightarrow> Message option \<times> error option" where
  "NewMessage data =
     (if length data < 8 then (None, Some EOF)
      else
        (Some \<lparr>segments = Map.empty,
               reader = data,
               fieldSep = data ! 3,
               compSep = data ! 4,
               subCompSep = data ! 7,
               repeat = data ! 5,
               escape = data ! 6\<rparr>,
         None))"

text \<open>
  The loop of \<^verbatim>\<open>ReadSegment\<close>: the accumulated \<^verbatim>\<open>buf\<close> and the bytes left in the
  reader go in, the final \<^verbatim>\<open>buf\<close> and the bytes left after the loop come out.
\<close>

fun read_loop :: "byte list \<Rightarrow> byte list \<Rightarrow> byte list \<times> byte list" where
  "read_loop buf [] = (buf, [])"
| "read_loop buf (b # rest) =
     (if length buf = 0 \<and> IsSpace b then read_loop buf rest
      else if b = CR \<or> b = LF then (buf, rest)
      else read_loop (buf @ [b]) rest)"

definition ReadSegment :: "Message \<Rightarrow> Segment \<times> error option \<times> Message" where
  "ReadSegment m =
     (case read_loop [] (reader m) of
        (buf, rest) \<Rightarrow>
          (if length buf = 0 then (zeroSegment, Some EOF, m\<lparr>reader := rest\<rparr>)
           else (newSegment (fieldSep m) (compSep m) (subCompSep m) (repeat m) (escape m) buf,
                 None, m\<lparr>reader := rest\<rparr>)))"

text \<open>Reading a key of a Go map: the zero value (the nil slice) when the key is absent.\<close>

definition map_get :: "(string \<rightharpoonup> Segment list) \<Rightarrow> string \<Rightarrow> Segment list" where
  "map_get mp k = (case mp k of None \<Rightarrow> [] | Some v \<Rightarrow> v)"

definition GetSegment :: "Message \<Rightarrow> string \<Rightarrow> Segment list \<times> error option" where
  "GetSegment m id' = (map_get (segments m) id', None)"

text \<open>
  The loop of \<^verbatim>\<open>Parse\<close>: read the next segment; stop at \<^verbatim>\<open>io.EOF\<close>; return any other
  error; otherwise append the segment to the sequence stored under its type and go on.
  The recursion is not structural: it ends because a call of \<^verbatim>\<open>ReadSegment\<close> that
  returns a segment has taken at least one byte from the reader.
\<close>

function parse_loop :: "Message \<Rightarrow> Message \<times> error option" where
  "parse_loop m =
     (case ReadSegment m of
        (segment, err, m') \<Rightarrow>
          (if err = Some EOF then (m', None)
           else if err \<noteq> None then (m', err)
           else
             (let stype = Type segment
              in parse_loop
                   (m'\<lparr>segments :=
                         (segments m')(stype \<mapsto> map_get (segments m') stype @ [segment])\<rparr>))))"
  by pat_completeness auto
termination
proof (relation "measure (\<lambda>m. length (reader m))")
  show "wf (measure (\<lambda>m. length (reader m)))" by simp
next
  fix m :: Message and x y err m' stype
  assume a: "(x, y) = ReadSegment m" "(err, m') = y" "err \<noteq> Some EOF" "\<not> err \<noteq> None"
  have le: "length (snd (read_loop buf r)) \<le> length r" for buf r
    by (induction r arbitrary: buf) (auto intro: le_SucI)
  have lt: "length (snd (read_loop [] r)) < length r" if "fst (read_loop [] r) \<noteq> []" for r
  proof (cases r)
    case Nil
    with that show ?thesis by simp
  next
    case (Cons b rest)
    have "length (snd (read_loop [] (b # rest))) \<le> length rest"
      using le [of "[]" rest] le [of "[b]" rest] by simp
    with Cons show ?thesis by simp
  qed
  from a have "ReadSegment m = (x, err, m')" by simp
  then have "fst (read_loop [] (reader m)) \<noteq> []" and "reader m' = snd (read_loop [] (reader m))"
    using a(3,4) by (auto simp: ReadSegment_def split: prod.splits if_splits)
  with lt [of "reader m"]
  show "(m'\<lparr>segments := (segments m')(stype \<mapsto> map_get (segments m') stype @ [x])\<rparr>, m)
          \<in> measure (\<lambda>m. length (reader m))"
    by simp
qed

definition Parse :: "Message \<Rightarrow> Message \<times> error option" where
  "Parse m = parse_loop (m\<lparr>segments := Map.empty\<rparr>)"

text \<open>
  \<^verbatim>\<open>Get\<close> takes a pointer to a location (nil is \<open>None\<close>): reading \<^verbatim>\<open>l.Segment\<close>
  through a nil pointer panics, and so does \<^verbatim>\<open>seg[0]\<close> on an empty slice. The error
  of \<^verbatim>\<open>GetSubComponent\<close> is dropped (\<^verbatim>\<open>sc, _ :=\<close>) and the error returned with the
  text is the one of \<^verbatim>\<open>GetSegment\<close>. \<^verbatim>\<open>sc.String()\<close> is the text of the subcomponent.
\<close>

definition Get :: "Message \<Rightarrow> Location option \<Rightarrow> panic + (string \<times> error option)" where
  "Get m l =
     (case l of
        None \<Rightarrow> Inl NilDereference
      | Some loc \<Rightarrow>
          (case GetSegment m (Segment loc) of
             (seg, err) \<Rightarrow>
               (if err \<noteq> None then Inr ([], err)
                else
                  (case seg of
                     [] \<Rightarrow> Inl IndexOutOfRange
                   | seg0 # _ \<Rightarrow>
                       (case GetSubComponent seg0 (FieldSeq loc) 0 (Comp loc) (SubComp loc) of
                          (sc, _) \<Rightarrow> Inr (sc, err))))))"

definition Find :: "Message \<Rightarrow> string \<Rightarrow> panic + (string \<times> error option)" where
  "Find m loc = Get m (NewLocation loc)"

section \<open>Trimming white space\<close>

text \<open>
  \<^verbatim>\<open>strings.TrimSpace\<close> removes the leading and the trailing white space of a string
  read as UTF-8: the six ASCII white space bytes, and the encodings of U+0085, U+00A0
  (two bytes) and of U+1680, U+2000 to U+200A, U+2028, U+2029, U+202F, U+205F, U+3000
  (three bytes). A byte that does not start a well-formed encoding is no white space,
  so trimming stops there.
\<close>

definition ascii_space :: "byte \<Rightarrow> bool" where
  "ascii_space a \<longleftrightarrow>
     a = CHR 0x09 \<or> a = CHR 0x0A \<or> a = CHR 0x0B \<or> a = CHR 0x0C \<or> a = CHR 0x0D \<or>
     a = CHR 0x20"

definition space2 :: "byte \<Rightarrow> byte \<Rightarrow> bool" where
  "space2 a b \<longleftrightarrow> a = CHR 0xC2 \<and> (b = CHR 0x85 \<or> b = CHR 0xA0)"

definition space3 :: "byte \<Rightarrow> byte \<Rightarrow> byte \<Rightarrow> bool" where
  "space3 a b c \<longleftrightarrow>
     (a = CHR 0xE1 \<and> b = CHR 0x9A \<and> c = CHR 0x80) \<or>
     (a = CHR 0xE2 \<and> b = CHR 0x80 \<and>
        (((128::nat) \<le> of_char c \<and> of_char c \<le> (138::nat)) \<or>
         c = CHR 0xA8 \<or> c = CHR 0xA9 \<or> c = CHR 0xAF)) \<or>
     (a = CHR 0xE2 \<and> b = CHR 0x81 \<and> c = CHR 0x9F) \<or>
     (a = CHR 0xE3 \<and> b = CHR 0x80 \<and> c = CHR 0x80)"

fun TrimLeft :: "string \<Rightarrow> string" where
  "TrimLeft [] = []"
| "TrimLeft [a] = (if ascii_space a then [] else [a])"
| "TrimLeft [a, b] =
     (if ascii_space a then TrimLeft [b] else if space2 a b then [] else [a, b])"
| "TrimLeft (a # b # c # rest) =
     (if ascii_space a then TrimLeft (b # c # rest)
      else if space2 a b then TrimLeft (c # rest)
      else if space3 a b c then TrimLeft rest
      else a # b # c # rest)"

text \<open>The same from the end of the string: the argument is the reversed string.\<close>

fun trim_rev :: "string \<Rightarrow> string" where
  "trim_rev [] = []"
| "trim_rev [a] = (if ascii_space a then [] else [a])"
| "trim_rev [a, b] =
     (if ascii_space a then trim_rev [b] else if space2 b a then [] else [a, b])"
| "trim_rev (a # b # c # rest) =
     (if ascii_space a then trim_rev (b # c # rest)
      else if space2 b a then trim_rev (c # rest)
      else if space3 c b a then trim_rev rest
      else a # b # c # rest)"

definition TrimRight :: "string \<Rightarrow> string" where
  "TrimRight s = rev (trim_rev (rev s))"

definition TrimSpace :: "string \<Rightarrow> string" where
  "TrimSpace s = TrimRight (TrimLeft s)"

section \<open>Binding a message into a struct\<close>

text \<open>
  What \<^verbatim>\<open>Unmarshal\<close> sees of its argument through package \<^verbatim>\<open>reflect\<close>. A field of the
  target struct has the value of its \<^verbatim>\<open>hl7\<close> struct tag (empty when it has none), a
  kind (string or anything else), can be set or not (it cannot when it is unexported),
  and, when it is a string, a value. The argument is a non-nil pointer to a struct, a
  nil pointer, or anything else; for the last two \<^verbatim>\<open>reflect\<close> panics before the loop.
  \<^verbatim>\<open>SetString\<close> panics on a field whose kind is not string.
\<close>

datatype kind = String | Other

record StructField =
  Tag :: string
  Kind :: kind
  CanSet :: bool
  Value :: string

datatype target = PtrToStruct "StructField list" | NilPointer | NotAPointerToStruct

text \<open>
  The loop of \<^verbatim>\<open>Unmarshal\<close> over the fields of the struct, first to last. A panic
  ends it (the fields set before it stay set in the caller's struct; the model keeps
  the panic only); otherwise the fields come back, each one set or left as it was.
\<close>

fun unmarshal_fields :: "Message \<Rightarrow> StructField list \<Rightarrow> panic + StructField list" where
  "unmarshal_fields m [] = Inr []"
| "unmarshal_fields m (fld # rest) =
     (let r = Tag fld in
      if r \<noteq> [] then
        (case Find m r of
           Inl p \<Rightarrow> Inl p
         | Inr (val, _) \<Rightarrow>
             (if val \<noteq> [] then
                (if CanSet fld then
                   (if Kind fld = String then
                      (case unmarshal_fields m rest of
                         Inl p \<Rightarrow> Inl p
                       | Inr rest' \<Rightarrow> Inr (fld\<lparr>Value := TrimSpace val\<rparr> # rest'))
                    else Inl SetStringOnNonString)
                 else
                   (case unmarshal_fields m rest of
                      Inl p \<Rightarrow> Inl p
                    | Inr rest' \<Rightarrow> Inr (fld # rest')))
              else
                (case unmarshal_fields m rest of
                   Inl p \<Rightarrow> Inl p
                 | Inr rest' \<Rightarrow> Inr (fld # rest'))))
      else
        (case unmarshal_fields m rest of
           Inl p \<Rightarrow> Inl p
         | Inr rest' \<Rightarrow> Inr (fld # rest')))"

definition Unmarshal :: "Message \<Rightarrow> target \<Rightarrow> panic + (StructField list \<times> error option)" where
  "Unmarshal m it =
     (case it of
        PtrToStruct st \<Rightarrow>
          (case unmarshal_fields m st of
             Inl p \<Rightarrow> Inl p
           | Inr st' \<Rightarrow> Inr (st', None))
      | NilPointer \<Rightarrow> Inl NotPointerToStruct
      | NotAPointerToStruct \<Rightarrow> Inl NotPointerToStruct)"

section \<open>Reading a whole message\<close>

text \<open>
  The segments of a message in message order: what successive calls of
  \<^verbatim>\<open>ReadSegment\<close> return up to the first call that returns an error. This is the
  loop of \<^verbatim>\<open>Parse\<close> without the grouping, and it ends for the same reason.
\<close>

function read_all :: "Message \<Rightarrow> Segment list" where
  "read_all m =
     (case ReadSegment m of
        (segment, err, m') \<Rightarrow> (if err \<noteq> None then [] else segment # read_all m'))"
  by pat_completeness auto
termination
proof (relation "measure (\<lambda>m. length (reader m))")
  show "wf (measure (\<lambda>m. length (reader m)))" by simp
next
  fix m :: Message and x y err m'
  assume a: "(x, y) = ReadSegment m" "(err, m') = y" "\<not> err \<noteq> None"
  have le: "length (snd (read_loop buf r)) \<le> length r" for buf r
    by (induction r arbitrary: buf) (auto intro: le_SucI)
  have "length (snd (read_loop [] r)) < length r" if "fst (read_loop [] r) \<noteq> []" for r
  proof (cases r)
    case Nil
    with that show ?thesis by simp
  next
    case (Cons b rest)
    have "length (snd (read_loop [] (b # rest))) \<le> length rest"
      using le [of "[]" rest] le [of "[b]" rest] by simp
    with Cons show ?thesis by simp
  qed
  moreover from a have "fst (read_loop [] (reader m)) \<noteq> []"
    and "reader m' = snd (read_loop [] (reader m))"
    by (auto simp: ReadSegment_def split: prod.splits if_splits)
  ultimately show "(m', m) \<in> measure (\<lambda>m. length (reader m))"
    by simp
qed

text \<open>
  What call number \<open>n\<close> of \<^verbatim>\<open>ReadSegment\<close> returns (the first call is number 0), each
  call starting from the message as the call before left it.
\<close>

primrec nth_read :: "nat \<Rightarrow> Message \<Rightarrow> Segment \<times> error option \<times> Message" where
  "nth_read 0 m = ReadSegment m"
| "nth_read (Suc n) m = nth_read n (snd (snd (ReadSegment m)))"

text \<open>
  An address resolves in a message when it parses and the message has at least one
  segment under its tag; \<open>found\<close> is the text \<^verbatim>\<open>Find\<close> returns for it.
\<close>

definition tag_present :: "Message \<Rightarrow> string \<Rightarrow> bool" where
  "tag_present m r =
     (case NewLocation r of
        None \<Rightarrow> False
      | Some loc \<Rightarrow> map_get (segments m) (Segment loc) \<noteq> [])"

definition found :: "Message \<Rightarrow> string \<Rightarrow> string" where
  "found m r = (case Find m r of Inl _ \<Rightarrow> [] | Inr (val, _) \<Rightarrow> val)"

text \<open>
  What binding does to one field of the target: a field that is annotated, can be set
  and has a non-empty addressed value gets that value, trimmed; any other field stays.
\<close>

definition bind_field :: "Message \<Rightarrow> StructField \<Rightarrow> StructField" where
  "bind_field m fld =
     (if Tag fld \<noteq> [] \<and> found m (Tag fld) \<noteq> [] \<and> CanSet fld
      then fld\<lparr>Value := TrimSpace (found m (Tag fld))\<rparr>
      else fld)"

text \<open>
  The steps of \<^verbatim>\<open>TestUnmarshal\<close>: build the message from the bytes (the test stops
  when that fails, \<open>None\<close>), parse it, bind it into the target.
\<close>

definition unmarshal_bytes ::
  "byte list \<Rightarrow> target \<Rightarrow> (panic + (StructField list \<times> error option)) option" where
  "unmarshal_bytes data it =
     (case NewMessage data of
        (Some msg, None) \<Rightarrow> (case Parse msg of (msg', _) \<Rightarrow> Some (Unmarshal msg' it))
      | _ \<Rightarrow> None)"

section \<open>The inputs of the tests\<close>

text \<open>
  The minimal header \<^verbatim>\<open>MSH|^~\&\<close> (byte 6 is the backslash, \<open>0x5C\<close>), the two inputs of
  \<^verbatim>\<open>TestMessageReadSegment\<close> with two segments, and the message and the struct of
  \<^verbatim>\<open>TestUnmarshal\<close>; in that message every line but the first starts with a tab, and
  the last segment ends with one.
\<close>

definition minimal :: "byte list" where
  "minimal = ''MSH|^~'' @ [CHR 0x5C] @ ''&''"

definition two_segments :: "byte list" where
  "two_segments = minimal @ [CR] @ minimal"

definition two_segments_crlf :: "byte list" where
  "two_segments_crlf = minimal @ [CR, LF] @ minimal"

definition hl7text :: "byte list" where
  "hl7text =
     minimal @ ''|CERNER||PriorityHealth||||ORU^R01|Q479004375T431430612|P|2.3|'' @
     [LF, CHR 0x09] @
     ''PID|||001677980||SMITH^CURTIS||19680219|M||||||||||929645156318|123456789|'' @
     [LF, CHR 0x09] @
     ''PD1||||1234567890^LAST^FIRST^M^^^^^NPI|'' @
     [LF, CHR 0x09] @
     ''OBR|1|341856649^HNAM_ORDERID|000002006326002362|648088^Basic Metabolic Panel|||20061122151600|||||||||1620^Hooker^Robert^L||||||20061122154733|||F|||||||||||20061122140000|'' @
     [LF, CHR 0x09] @
     ''OBX|1|NM|GLU^Glucose Lvl|59|mg/dL|65-99^65^99|L||||F|||20061122154733|'' @
     [CHR 0x09, LF, CHR 0x09]"



definition string_field :: "string \<Rightarrow> string \<Rightarrow> StructField" where
  "string_field tag v = \<lparr>Tag = tag, Kind = String, CanSet = True, Value = v\<rparr>"


text \<open>An exhausted message with the standard delimiters, for concrete instances.\<close>

definition exhausted :: Message where
  "exhausted =
     \<lparr>segments = Map.empty, reader = [], fieldSep = CHR ''|'', compSep = CHR ''^'',
      subCompSep = CHR ''&'', repeat = CHR ''~'', escape = CHR 0x5C\<rparr>"

declare parse_loop.simps [simp del] read_all.simps [simp del]

section \<open>Construction\<close>

text \<open>
  C2. For every buffer shorter than 8 bytes, the nil and the empty buffer included
  (both are the empty list), \<^verbatim>\<open>NewMessage\<close> returns the nil message and an error.
\<close>

theorem NewMessage_short_buffer_fails:
  "length data < 8 \<Longrightarrow> NewMessage data = (None, Some EOF)"
  by (simp add: NewMessage_def)

theorem NewMessage_short_buffer_fails_witness:
  "length (''MSH|^~'' @ [CHR 0x5C]) < 8 \<and>
   NewMessage (''MSH|^~'' @ [CHR 0x5C]) = (None, Some EOF) \<and>
   length ([] :: byte list) < 8 \<and> NewMessage [] = (None, Some EOF)"
  using NewMessage_short_buffer_fails [of "''MSH|^~'' @ [CHR 0x5C]"]
    NewMessage_short_buffer_fails [of "[]"]
  by simp

text \<open>
  C3. For the minimal 8-byte buffer construction succeeds and the delimiters are the
  bar, the caret, the tilde, the backslash and the ampersand as field, component,
  repetition, escape and subcomponent separator; for every buffer of at least 8 bytes
  construction succeeds and bytes 3, 4, 5, 6, 7 get these five roles in this order.
\<close>

theorem NewMessage_delimiters:
  "(\<exists>m. NewMessage minimal = (Some m, None) \<and>
        fieldSep m = CHR ''|'' \<and> compSep m = CHR ''^'' \<and> repeat m = CHR ''~'' \<and>
        escape m = CHR 0x5C \<and> subCompSep m = CHR ''&'') \<and>
   (8 \<le> length data \<longrightarrow>
      (\<exists>m. NewMessage data = (Some m, None) \<and>
           fieldSep m = data ! 3 \<and> compSep m = data ! 4 \<and> repeat m = data ! 5 \<and>
           escape m = data ! 6 \<and> subCompSep m = data ! 7 \<and> reader m = data))"
  by (simp add: NewMessage_def minimal_def)

theorem NewMessage_delimiters_witness:
  "8 \<le> length ''MSH.....'' \<and>
   (\<exists>m. NewMessage ''MSH.....'' = (Some m, None) \<and>
        fieldSep m = CHR ''.'' \<and> compSep m = CHR ''.'' \<and> repeat m = CHR ''.'' \<and>
        escape m = CHR ''.'' \<and> subCompSep m = CHR ''.'' \<and> reader m = ''MSH.....'')"
  using NewMessage_delimiters [of "''MSH.....''"]
  by simp

section \<open>The segment tokenizer\<close>

text \<open>
  A call of \<^verbatim>\<open>ReadSegment\<close> that returns an error returns \<^verbatim>\<open>io.EOF\<close> with the zero
  segment, and has read the reader to its end: white space is skipped while nothing is
  accumulated, so the loop leaves with an empty \<^verbatim>\<open>buf\<close> only at the end of the input.
\<close>

lemma ReadSegment_error:
  assumes "ReadSegment m = (s, Some e, m')"
  shows "e = EOF" and "s = zeroSegment" and "reader m' = []"
proof -
  have nil: "rest = []" if "read_loop [] r = ([], rest)" for r rest
    using that
  proof (induction r)
    case Nil
    then show ?case by simp
  next
    case (Cons b r)
    have grow: "fst (read_loop buf r') \<noteq> []" if "buf \<noteq> []" for buf r'
      using that by (induction r' arbitrary: buf) auto
    show ?case
    proof (cases "IsSpace b")
      case True
      with Cons show ?thesis by simp
    next
      case False
      then have "b \<noteq> CR" "b \<noteq> LF" by (auto simp: IsSpace_def CR_def LF_def)
      with False Cons.prems have "read_loop [b] r = ([], rest)" by simp
      with grow [of "[b]" r] show ?thesis by simp
    qed
  qed
  from assms show "e = EOF" "s = zeroSegment"
    by (auto simp: ReadSegment_def split: prod.splits if_splits)
  from assms nil show "reader m' = []"
    by (auto simp: ReadSegment_def split: prod.splits if_splits)
qed

lemma read_loop_skip:
  "list_all IsSpace ws \<Longrightarrow> read_loop [] (ws @ r) = read_loop [] r"
  by (induction ws) auto

lemma read_loop_grows: "buf \<noteq> [] \<Longrightarrow> fst (read_loop buf r) \<noteq> []"
  by (induction r arbitrary: buf) auto

lemma read_loop_prefix: "\<exists>ys. fst (read_loop buf r) = buf @ ys \<and> CR \<notin> set ys \<and> LF \<notin> set ys"
proof (induction r arbitrary: buf)
  case Nil
  then show ?case by simp
next
  case (Cons b r)
  show ?case
  proof (cases "length buf = 0 \<and> IsSpace b")
    case True
    then show ?thesis using Cons.IH [of buf] by simp
  next
    case False
    show ?thesis
    proof (cases "b = CR \<or> b = LF")
      case True
      with False show ?thesis by auto
    next
      case nb: False
      from Cons.IH [of "buf @ [b]"] obtain ys where
        "fst (read_loop (buf @ [b]) r) = (buf @ [b]) @ ys" "CR \<notin> set ys" "LF \<notin> set ys"
        by blast
      with False nb show ?thesis by (intro exI [of _ "b # ys"]) auto
    qed
  qed
qed

lemma read_loop_first:
  "fst (read_loop [] r) \<noteq> [] \<Longrightarrow> \<not> IsSpace (hd (fst (read_loop [] r)))"
proof (induction r)
  case Nil
  then show ?case by simp
next
  case (Cons b r)
  show ?case
  proof (cases "IsSpace b")
    case True
    with Cons show ?thesis by simp
  next
    case False
    then have nb: "b \<noteq> CR" "b \<noteq> LF" by (auto simp: IsSpace_def CR_def LF_def)
    from read_loop_prefix [of "[b]" r] obtain ys where "fst (read_loop [b] r) = [b] @ ys"
      by blast
    with False nb show ?thesis by simp
  qed
qed

lemma read_loop_shorter: "length (snd (read_loop buf r)) \<le> length r"
  by (induction r arbitrary: buf) (auto intro: le_SucI)

lemma read_loop_consumes:
  assumes "fst (read_loop [] r) \<noteq> []"
  shows "length (snd (read_loop [] r)) < length r"
proof (cases r)
  case Nil
  with assms show ?thesis by simp
next
  case (Cons b rest)
  have "length (snd (read_loop [] (b # rest))) \<le> length rest"
    using read_loop_shorter [of "[]" rest] read_loop_shorter [of "[b]" rest] by simp
  with Cons show ?thesis by simp
qed

lemma ReadSegment_segment:
  assumes "ReadSegment m = (s, None, m')"
  shows "seg_data s \<noteq> []" and "\<not> IsSpace (hd (seg_data s))"
    and "CR \<notin> set (seg_data s)" and "LF \<notin> set (seg_data s)"
    and "length (reader m') < length (reader m)"
    and "s = newSegment (fieldSep m) (compSep m) (subCompSep m) (repeat m) (escape m) (seg_data s)"
    and "m' = m\<lparr>reader := reader m'\<rparr>"
proof -
  from assms have buf: "fst (read_loop [] (reader m)) \<noteq> []"
    and s: "s = newSegment (fieldSep m) (compSep m) (subCompSep m) (repeat m) (escape m)
                  (fst (read_loop [] (reader m)))"
    and m': "m' = m\<lparr>reader := snd (read_loop [] (reader m))\<rparr>"
    by (auto simp: ReadSegment_def split: prod.splits if_splits)
  from s have d: "seg_data s = fst (read_loop [] (reader m))" by (simp add: newSegment_def)
  from buf d show "seg_data s \<noteq> []" by simp
  from buf d read_loop_first show "\<not> IsSpace (hd (seg_data s))" by simp
  from read_loop_prefix [of "[]" "reader m"] d
  show "CR \<notin> set (seg_data s)" "LF \<notin> set (seg_data s)" by auto
  from read_loop_consumes [OF buf] m' show "length (reader m') < length (reader m)" by simp
  from s d show "s = newSegment (fieldSep m) (compSep m) (subCompSep m) (repeat m) (escape m) (seg_data s)"
    by simp
  from m' show "m' = m\<lparr>reader := reader m'\<rparr>" by simp
qed

lemma ReadSegment_exhausted:
  "reader m = [] \<Longrightarrow> ReadSegment m = (zeroSegment, Some EOF, m)"
  by (simp add: ReadSegment_def)

lemma ReadSegment_skip:
  "list_all IsSpace ws \<Longrightarrow>
   ReadSegment (m\<lparr>reader := ws @ r\<rparr>) = ReadSegment (m\<lparr>reader := r\<rparr>)"
  by (simp add: ReadSegment_def read_loop_skip split: prod.splits)

lemma read_all_error:
  "ReadSegment m = (s, Some e, m') \<Longrightarrow> read_all m = []"
  by (subst read_all.simps) simp

lemma read_all_segment:
  "ReadSegment m = (s, None, m') \<Longrightarrow> read_all m = s # read_all m'"
  by (subst read_all.simps) simp

lemma read_all_exhausted: "reader m = [] \<Longrightarrow> read_all m = []"
  using ReadSegment_exhausted read_all_error by blast

lemma read_all_skip:
  "list_all IsSpace ws \<Longrightarrow> read_all (m\<lparr>reader := ws @ r\<rparr>) = read_all (m\<lparr>reader := r\<rparr>)"
  by (subst (1 2) read_all.simps) (simp add: ReadSegment_skip)

lemma read_all_nonempty:
  "s \<in> set (read_all m) \<Longrightarrow>
   seg_data s \<noteq> [] \<and> \<not> IsSpace (hd (seg_data s)) \<and>
   CR \<notin> set (seg_data s) \<and> LF \<notin> set (seg_data s)"
proof (induction "length (reader m)" arbitrary: m rule: less_induct)
  case less
  obtain s0 err m' where r: "ReadSegment m = (s0, err, m')" by (cases "ReadSegment m") auto
  show ?case
  proof (cases err)
    case None
    with r have ra: "read_all m = s0 # read_all m'" by (simp add: read_all_segment)
    from less.prems ra consider "s = s0" | "s \<in> set (read_all m')" by auto
    then show ?thesis
    proof cases
      case 1
      with r None ReadSegment_segment(1-4) [of m s0 m'] show ?thesis by simp
    next
      case 2
      from r None have "length (reader m') < length (reader m)"
        using ReadSegment_segment(5) by simp
      from less.hyps [OF this 2] show ?thesis .
    qed
  next
    case (Some e)
    with r less.prems show ?thesis by (simp add: read_all_error)
  qed
qed

lemma nth_read_beyond:
  "length (read_all m) \<le> n \<Longrightarrow>
   fst (nth_read n m) = zeroSegment \<and> fst (snd (nth_read n m)) = Some EOF"
proof (induction n arbitrary: m)
  case 0
  obtain s err m' where r: "ReadSegment m = (s, err, m')" by (cases "ReadSegment m") auto
  show ?case
  proof (cases err)
    case None
    with r 0 show ?thesis by (simp add: read_all_segment)
  next
    case (Some e)
    with r ReadSegment_error(1,2) [of m s e m'] show ?thesis by simp
  qed
next
  case (Suc n)
  obtain s err m' where r: "ReadSegment m = (s, err, m')" by (cases "ReadSegment m") auto
  show ?case
  proof (cases err)
    case None
    with r Suc.prems have "length (read_all m') \<le> n" by (simp add: read_all_segment)
    with Suc.IH [of m'] r show ?thesis by simp
  next
    case (Some e)
    with r ReadSegment_error(3) [of m s e m'] have "read_all m' = []"
      by (simp add: read_all_exhausted)
    with Suc.IH [of m'] r show ?thesis by simp
  qed
qed

lemma nth_read_within:
  "i < length (read_all m) \<Longrightarrow>
   fst (nth_read i m) = read_all m ! i \<and> fst (snd (nth_read i m)) = None"
proof (induction i arbitrary: m)
  case 0
  obtain s err m' where r: "ReadSegment m = (s, err, m')" by (cases "ReadSegment m") auto
  show ?case
  proof (cases err)
    case None
    with r show ?thesis by (simp add: read_all_segment)
  next
    case (Some e)
    with r 0 show ?thesis by (simp add: read_all_error)
  qed
next
  case (Suc i)
  obtain s err m' where r: "ReadSegment m = (s, err, m')" by (cases "ReadSegment m") auto
  show ?case
  proof (cases err)
    case None
    with r Suc.prems have "i < length (read_all m')" by (simp add: read_all_segment)
    with Suc.IH [of m'] r None show ?thesis by (simp add: read_all_segment)
  next
    case (Some e)
    with r Suc.prems show ?thesis by (simp add: read_all_error)
  qed
qed

text \<open>
  C5. The true segment count of a message is the length of \<open>read_all\<close>. Every call
  of \<^verbatim>\<open>ReadSegment\<close> from that number on returns \<^verbatim>\<open>io.EOF\<close>, no other error, with
  the zero segment; every call before it returns no error and the segment of its
  position, and none of these segments is what a call beyond the count returns.
\<close>

theorem ReadSegment_after_end:
  "length (read_all m) \<le> n \<Longrightarrow>
     fst (nth_read n m) = zeroSegment \<and>
     fst (snd (nth_read n m)) = Some EOF \<and>
     (\<forall>i < length (read_all m).
        fst (snd (nth_read i m)) = None \<and>
        fst (nth_read i m) = read_all m ! i \<and>
        fst (nth_read n m) \<noteq> fst (nth_read i m))"
proof -
  assume n: "length (read_all m) \<le> n"
  have z: "fst (nth_read n m) = zeroSegment" "fst (snd (nth_read n m)) = Some EOF"
    using nth_read_beyond [OF n] by simp_all
  have "fst (snd (nth_read i m)) = None \<and> fst (nth_read i m) = read_all m ! i \<and>
        fst (nth_read n m) \<noteq> fst (nth_read i m)" if i: "i < length (read_all m)" for i
  proof -
    from nth_read_within [OF i] have w: "fst (nth_read i m) = read_all m ! i"
      "fst (snd (nth_read i m)) = None" by simp_all
    from i have "read_all m ! i \<in> set (read_all m)" by simp
    then have "seg_data (read_all m ! i) \<noteq> []" using read_all_nonempty by blast
    moreover have "seg_data zeroSegment = []" by (simp add: zeroSegment_def newSegment_def)
    ultimately have "zeroSegment \<noteq> read_all m ! i" by metis
    with w z show ?thesis by simp
  qed
  with z show ?thesis by blast
qed

theorem ReadSegment_after_end_witness:
  "length (read_all (exhausted\<lparr>reader := two_segments_crlf\<rparr>)) \<le> 4 \<and>
   fst (nth_read 4 (exhausted\<lparr>reader := two_segments_crlf\<rparr>)) = zeroSegment \<and>
   fst (snd (nth_read 4 (exhausted\<lparr>reader := two_segments_crlf\<rparr>))) = Some EOF \<and>
   (1::nat) < length (read_all (exhausted\<lparr>reader := two_segments_crlf\<rparr>)) \<and>
   fst (snd (nth_read 1 (exhausted\<lparr>reader := two_segments_crlf\<rparr>))) = None \<and>
   fst (nth_read 4 (exhausted\<lparr>reader := two_segments_crlf\<rparr>)) \<noteq>
     fst (nth_read 1 (exhausted\<lparr>reader := two_segments_crlf\<rparr>))"
proof -
  let ?m = "exhausted\<lparr>reader := two_segments_crlf\<rparr>"
  have len: "length (read_all ?m) = 2"
    by code_simp
  then have le: "length (read_all ?m) \<le> 4" and one: "(1::nat) < length (read_all ?m)"
    by simp_all
  note t = ReadSegment_after_end [OF le]
  from t have z: "fst (nth_read 4 ?m) = zeroSegment" "fst (snd (nth_read 4 ?m)) = Some EOF"
    by blast+
  from t one have "fst (snd (nth_read 1 ?m)) = None \<and>
      fst (nth_read 4 ?m) \<noteq> fst (nth_read 1 ?m)"
    by blast
  with z le one show ?thesis by blast
qed


text \<open>
  C4. The two inputs of two \<^verbatim>\<open>MSH\<close> segments, joined by a carriage return and by a
  carriage return and a line feed, both yield exactly two segments, each the minimal
  header and each of type \<^verbatim>\<open>MSH\<close>. In general white space in front of a segment is
  dropped before any byte is accumulated: a run of white space bytes at the reading
  position changes neither what the next call returns nor the segments of the rest of
  the message, and no segment that is returned is empty or starts with white space.
\<close>

theorem tokenizer_boundaries:
  "NewMessage two_segments = (Some (exhausted\<lparr>reader := two_segments\<rparr>), None) \<and>
   map seg_data (read_all (exhausted\<lparr>reader := two_segments\<rparr>)) = [minimal, minimal] \<and>
   map Type (read_all (exhausted\<lparr>reader := two_segments\<rparr>)) = [''MSH'', ''MSH''] \<and>
   NewMessage two_segments_crlf = (Some (exhausted\<lparr>reader := two_segments_crlf\<rparr>), None) \<and>
   map seg_data (read_all (exhausted\<lparr>reader := two_segments_crlf\<rparr>)) = [minimal, minimal] \<and>
   map Type (read_all (exhausted\<lparr>reader := two_segments_crlf\<rparr>)) = [''MSH'', ''MSH''] \<and>
   (list_all IsSpace ws \<longrightarrow>
      ReadSegment (m\<lparr>reader := ws @ r\<rparr>) = ReadSegment (m\<lparr>reader := r\<rparr>) \<and>
      read_all (m\<lparr>reader := ws @ r\<rparr>) = read_all (m\<lparr>reader := r\<rparr>)) \<and>
   (\<forall>s \<in> set (read_all (m\<lparr>reader := r\<rparr>)).
      seg_data s \<noteq> [] \<and> \<not> IsSpace (hd (seg_data s)))"
proof -
  have a: "NewMessage two_segments = (Some (exhausted\<lparr>reader := two_segments\<rparr>), None)"
    by (simp add: NewMessage_def two_segments_def minimal_def exhausted_def)
  have b: "map seg_data (read_all (exhausted\<lparr>reader := two_segments\<rparr>)) = [minimal, minimal]"
    by code_simp
  have c: "map Type (read_all (exhausted\<lparr>reader := two_segments\<rparr>)) = [''MSH'', ''MSH'']"
    by code_simp
  have d: "NewMessage two_segments_crlf =
             (Some (exhausted\<lparr>reader := two_segments_crlf\<rparr>), None)"
    by (simp add: NewMessage_def two_segments_crlf_def minimal_def exhausted_def)
  have e: "map seg_data (read_all (exhausted\<lparr>reader := two_segments_crlf\<rparr>)) =
             [minimal, minimal]"
    by code_simp
  have f: "map Type (read_all (exhausted\<lparr>reader := two_segments_crlf\<rparr>)) = [''MSH'', ''MSH'']"
    by code_simp
  have g: "list_all IsSpace ws \<longrightarrow>
      ReadSegment (m\<lparr>reader := ws @ r\<rparr>) = ReadSegment (m\<lparr>reader := r\<rparr>) \<and>
      read_all (m\<lparr>reader := ws @ r\<rparr>) = read_all (m\<lparr>reader := r\<rparr>)"
    using ReadSegment_skip read_all_skip by blast
  have h: "\<forall>s \<in> set (read_all (m\<lparr>reader := r\<rparr>)).
             seg_data s \<noteq> [] \<and> \<not> IsSpace (hd (seg_data s))"
    using read_all_nonempty by blast
  from a b c d e f g h show ?thesis by blast
qed

theorem tokenizer_boundaries_witness:
  "list_all IsSpace [CR, LF, CHR 0x20, LF] \<and>
   ReadSegment (exhausted\<lparr>reader := [CR, LF, CHR 0x20, LF] @ minimal\<rparr>) =
     ReadSegment (exhausted\<lparr>reader := minimal\<rparr>) \<and>
   read_all (exhausted\<lparr>reader := [CR, LF, CHR 0x20, LF] @ minimal\<rparr>) =
     read_all (exhausted\<lparr>reader := minimal\<rparr>) \<and>
   map seg_data (read_all (exhausted\<lparr>reader := minimal\<rparr>)) = [minimal] \<and>
   newSegment (CHR ''|'') (CHR ''^'') (CHR ''&'') (CHR ''~'') (CHR 0x5C) minimal
     \<in> set (read_all (exhausted\<lparr>reader := minimal\<rparr>)) \<and>
   seg_data (newSegment (CHR ''|'') (CHR ''^'') (CHR ''&'') (CHR ''~'') (CHR 0x5C) minimal) \<noteq> []"
proof -
  have sp: "list_all IsSpace [CR, LF, CHR 0x20, LF]"
    by (simp add: IsSpace_def CR_def LF_def)
  have ra: "read_all (exhausted\<lparr>reader := minimal\<rparr>) =
              [newSegment (CHR ''|'') (CHR ''^'') (CHR ''&'') (CHR ''~'') (CHR 0x5C) minimal]"
    by code_simp
  then have mem: "newSegment (CHR ''|'') (CHR ''^'') (CHR ''&'') (CHR ''~'') (CHR 0x5C) minimal
     \<in> set (read_all (exhausted\<lparr>reader := minimal\<rparr>))" by simp
  from tokenizer_boundaries [where ws = "[CR, LF, CHR 0x20, LF]" and m = exhausted and r = minimal] sp mem ra
  show ?thesis by (simp add: newSegment_def minimal_def)
qed


text \<open>
  C10. The error of \<^verbatim>\<open>NewMessage\<close> on a buffer shorter than 8 bytes is \<^verbatim>\<open>io.EOF\<close>,
  the value \<^verbatim>\<open>ReadSegment\<close> returns on an exhausted reader, and the only error value
  \<^verbatim>\<open>ReadSegment\<close> ever returns: the two failures are the same error value.
\<close>

theorem construction_failure_is_EOF:
  "length data < 8 \<Longrightarrow>
     snd (NewMessage data) = Some EOF \<and>
     fst (snd (ReadSegment (m\<lparr>reader := []\<rparr>))) = snd (NewMessage data) \<and>
     (\<forall>m1 s e m2. ReadSegment m1 = (s, Some e, m2) \<longrightarrow> Some e = snd (NewMessage data))"
  using ReadSegment_error(1)
  by (auto simp: NewMessage_def ReadSegment_def)

theorem construction_failure_is_EOF_witness:
  "length ''MSH'' < 8 \<and>
   snd (NewMessage ''MSH'') = Some EOF \<and>
   fst (snd (ReadSegment (exhausted\<lparr>reader := []\<rparr>))) = snd (NewMessage ''MSH'') \<and>
   ReadSegment exhausted = (zeroSegment, Some EOF, exhausted)"
proof -
  have short: "length ''MSH'' < 8" by simp
  have "snd (NewMessage ''MSH'') = Some EOF \<and>
        fst (snd (ReadSegment (exhausted\<lparr>reader := []\<rparr>))) = snd (NewMessage ''MSH'')"
    using construction_failure_is_EOF [OF short, of exhausted] by blast
  moreover have "ReadSegment exhausted = (zeroSegment, Some EOF, exhausted)"
    by (simp add: ReadSegment_def exhausted_def)
  ultimately show ?thesis using short by blast
qed

section \<open>The segment index\<close>

lemma ReadSegment_segments:
  "ReadSegment (m\<lparr>segments := x\<rparr>) =
     (case ReadSegment m of (s, e, m') \<Rightarrow> (s, e, m'\<lparr>segments := x\<rparr>))"
  by (simp add: ReadSegment_def split: prod.splits)

lemma read_all_segments: "read_all (m\<lparr>segments := x\<rparr>) = read_all m"
proof (induction "length (reader m)" arbitrary: m x rule: less_induct)
  case less
  obtain s err m' where r: "ReadSegment m = (s, err, m')" by (cases "ReadSegment m") auto
  then have r': "ReadSegment (m\<lparr>segments := x\<rparr>) = (s, err, m'\<lparr>segments := x\<rparr>)"
    by (simp add: ReadSegment_segments)
  show ?case
  proof (cases err)
    case None
    with r have "length (reader m') < length (reader m)"
      using ReadSegment_segment(5) by simp
    from less.hyps [OF this, of x] r r' None show ?thesis
      by (simp add: read_all_segment)
  next
    case (Some e)
    with r r' show ?thesis by (simp add: read_all_error)
  qed
qed

lemma parse_loop_groups:
  "snd (parse_loop m) = None \<and>
   map_get (segments (fst (parse_loop m))) tag =
     map_get (segments m) tag @ filter (\<lambda>s. Type s = tag) (read_all m)"
proof (induction "length (reader m)" arbitrary: m rule: less_induct)
  case less
  obtain s err m' where r: "ReadSegment m = (s, err, m')" by (cases "ReadSegment m") auto
  show ?case
  proof (cases err)
    case None
    let ?m'' = "m'\<lparr>segments := (segments m')(Type s \<mapsto> map_get (segments m') (Type s) @ [s])\<rparr>"
    from r None have pl: "parse_loop m = parse_loop ?m''"
      by (subst parse_loop.simps) (simp add: Let_def)
    from r None have lt: "length (reader ?m'') < length (reader m)"
      using ReadSegment_segment(5) by simp
    from r None have "m' = m\<lparr>reader := reader m'\<rparr>" using ReadSegment_segment(7) by simp
    then have seg: "segments m' = segments m" by (metis Message.select_convs(1) Message.surjective Message.update_convs(2))
    have ra: "read_all ?m'' = read_all m'" by (rule read_all_segments)
    from less.hyps [OF lt] pl ra seg r None show ?thesis
      by (simp add: read_all_segment map_get_def)
  next
    case (Some e)
    with r ReadSegment_error(1) [of m s e m'] have e: "e = EOF" by simp
    from r Some e have "parse_loop m = (m', None)"
      by (subst parse_loop.simps) simp
    moreover from r Some e have "m' = m\<lparr>reader := snd (read_loop [] (reader m))\<rparr>"
      by (auto simp: ReadSegment_def split: prod.splits if_splits)
    ultimately show ?thesis using r Some by (simp add: read_all_error)
  qed
qed

text \<open>
  C6. \<^verbatim>\<open>GetSegment\<close> never returns an error. After \<^verbatim>\<open>Parse\<close> (which itself returns
  no error) it returns, for every tag, the segments of that type in message order, all
  of them; for a tag no segment has, the empty sequence and no error.
\<close>

theorem GetSegment_never_fails:
  "snd (GetSegment m tag) = None \<and>
   (Parse m0 = (m, e) \<longrightarrow>
      e = None \<and>
      GetSegment m tag = (filter (\<lambda>s. Type s = tag) (read_all m0), None) \<and>
      (tag \<notin> set (map Type (read_all m0)) \<longrightarrow> GetSegment m tag = ([], None)))"
proof -
  have "e = None \<and> map_get (segments m) tag = filter (\<lambda>s. Type s = tag) (read_all m0)"
    if p: "Parse m0 = (m, e)"
  proof -
    from p have "parse_loop (m0\<lparr>segments := Map.empty\<rparr>) = (m, e)" by (simp add: Parse_def)
    with parse_loop_groups [of "m0\<lparr>segments := Map.empty\<rparr>" tag]
    show ?thesis by (simp add: read_all_segments map_get_def)
  qed
  moreover have "filter (\<lambda>s. Type s = tag) (read_all m0) = []"
    if "tag \<notin> set (map Type (read_all m0))"
    using that by (auto simp: filter_empty_conv)
  ultimately show ?thesis by (auto simp: GetSegment_def)
qed

theorem GetSegment_never_fails_witness:
  "Parse (exhausted\<lparr>reader := two_segments\<rparr>) =
     (fst (Parse (exhausted\<lparr>reader := two_segments\<rparr>)), None) \<and>
   GetSegment (fst (Parse (exhausted\<lparr>reader := two_segments\<rparr>))) ''MSH'' =
     ([newSegment (CHR ''|'') (CHR ''^'') (CHR ''&'') (CHR ''~'') (CHR 0x5C) minimal,
       newSegment (CHR ''|'') (CHR ''^'') (CHR ''&'') (CHR ''~'') (CHR 0x5C) minimal], None) \<and>
   ''PID'' \<notin> set (map Type (read_all (exhausted\<lparr>reader := two_segments\<rparr>))) \<and>
   GetSegment (fst (Parse (exhausted\<lparr>reader := two_segments\<rparr>))) ''PID'' = ([], None)"
proof -
  let ?m0 = "exhausted\<lparr>reader := two_segments\<rparr>"
  have p: "Parse ?m0 = (fst (Parse ?m0), snd (Parse ?m0))" by simp
  have ra: "read_all ?m0 =
     [newSegment (CHR ''|'') (CHR ''^'') (CHR ''&'') (CHR ''~'') (CHR 0x5C) minimal,
      newSegment (CHR ''|'') (CHR ''^'') (CHR ''&'') (CHR ''~'') (CHR 0x5C) minimal]"
    by code_simp
  have ty: "Type (newSegment (CHR ''|'') (CHR ''^'') (CHR ''&'') (CHR ''~'') (CHR 0x5C) minimal) = ''MSH''"
    by code_simp
  from GetSegment_never_fails [of "fst (Parse ?m0)" "''MSH''" ?m0 "snd (Parse ?m0)"]
    GetSegment_never_fails [of "fst (Parse ?m0)" "''PID''" ?m0 "snd (Parse ?m0)"] p ra ty
  show ?thesis by simp
qed

lemma split_on_no_sep: "sep \<notin> set a \<Longrightarrow> split_on sep a = [a]"
  by (induction a) auto

lemma split_on_append:
  "sep \<notin> set a \<Longrightarrow> split_on sep (a @ sep # b) = a # split_on sep b"
  by (induction a) auto

lemma parse_index_no_dot: "parse_index s = Some n \<Longrightarrow> s \<noteq> [] \<and> CHR ''.'' \<notin> set s"
  by (auto simp: parse_index_def is_digit_def list_all_iff split: if_splits)

section \<open>Addresses\<close>

text \<open>
  C7. The address \<^verbatim>\<open>PID.5.1\<close> parses to segment \<^verbatim>\<open>PID\<close>, field 5, component 1,
  subcomponent 0, and \<^verbatim>\<open>MSH.0\<close> to segment \<^verbatim>\<open>MSH\<close>, field 0, component 0,
  subcomponent 0. In general, for a non-empty tag without a dot and a field token that
  is a non-negative integer, the tag is the leading token and the field index the
  second; a component that is left out is 0, and so is a subcomponent that is left out.
\<close>

theorem NewLocation_parses:
  "NewLocation ''PID.5.1'' = Some \<lparr>Segment = ''PID'', FieldSeq = 5, Comp = 1, SubComp = 0\<rparr> \<and>
   NewLocation ''MSH.0'' = Some \<lparr>Segment = ''MSH'', FieldSeq = 0, Comp = 0, SubComp = 0\<rparr> \<and>
   (tag \<noteq> [] \<and> CHR ''.'' \<notin> set tag \<and> parse_index fld = Some f \<longrightarrow>
      NewLocation (tag @ ''.'' @ fld) =
        Some \<lparr>Segment = tag, FieldSeq = f, Comp = 0, SubComp = 0\<rparr> \<and>
      (parse_index cmp = Some c \<longrightarrow>
         NewLocation (tag @ ''.'' @ fld @ ''.'' @ cmp) =
           Some \<lparr>Segment = tag, FieldSeq = f, Comp = c, SubComp = 0\<rparr>))"
proof -
  have a: "NewLocation ''PID.5.1'' =
             Some \<lparr>Segment = ''PID'', FieldSeq = 5, Comp = 1, SubComp = 0\<rparr>"
    by code_simp
  have b: "NewLocation ''MSH.0'' =
             Some \<lparr>Segment = ''MSH'', FieldSeq = 0, Comp = 0, SubComp = 0\<rparr>"
    by code_simp
  have c: "NewLocation (tag @ ''.'' @ fld) =
             Some \<lparr>Segment = tag, FieldSeq = f, Comp = 0, SubComp = 0\<rparr>"
    if "tag \<noteq> []" "CHR ''.'' \<notin> set tag" "parse_index fld = Some f"
  proof -
    from that(3) have "CHR ''.'' \<notin> set fld" using parse_index_no_dot by blast
    with that(2) have "split_on (CHR ''.'') (tag @ ''.'' @ fld) = [tag, fld]"
      by (simp add: split_on_append split_on_no_sep)
    with that show ?thesis by (simp add: NewLocation_def)
  qed
  have d: "NewLocation (tag @ ''.'' @ fld @ ''.'' @ cmp) =
             Some \<lparr>Segment = tag, FieldSeq = f, Comp = c, SubComp = 0\<rparr>"
    if "tag \<noteq> []" "CHR ''.'' \<notin> set tag" "parse_index fld = Some f"
      "parse_index cmp = Some c"
  proof -
    from that(3,4) have "CHR ''.'' \<notin> set fld" "CHR ''.'' \<notin> set cmp"
      using parse_index_no_dot by blast+
    with that(2) have "split_on (CHR ''.'') (tag @ ''.'' @ fld @ ''.'' @ cmp) = [tag, fld, cmp]"
      by (simp add: split_on_append split_on_no_sep)
    with that show ?thesis by (simp add: NewLocation_def)
  qed
  from a b c d show ?thesis by blast
qed

theorem NewLocation_parses_witness:
  "''OBX'' \<noteq> [] \<and> CHR ''.'' \<notin> set ''OBX'' \<and> parse_index ''14'' = Some 14 \<and>
   NewLocation ''OBX.14'' = Some \<lparr>Segment = ''OBX'', FieldSeq = 14, Comp = 0, SubComp = 0\<rparr> \<and>
   parse_index ''2'' = Some 2 \<and>
   NewLocation ''OBX.14.2'' = Some \<lparr>Segment = ''OBX'', FieldSeq = 14, Comp = 2, SubComp = 0\<rparr>"
proof -
  have h: "''OBX'' \<noteq> [] \<and> CHR ''.'' \<notin> set ''OBX'' \<and> parse_index ''14'' = Some 14"
    by code_simp
  have h2: "parse_index ''2'' = Some 2" by code_simp
  from NewLocation_parses [where tag = "''OBX''" and fld = "''14''" and f = 14
      and cmp = "''2''" and c = 2] h h2
  show ?thesis by simp
qed

section \<open>Looking up and binding values\<close>

text \<open>
  C1. Binding an address whose segment tag the message does not have. The message
  parsed from the minimal header has one \<^verbatim>\<open>MSH\<close> segment and no \<^verbatim>\<open>PID\<close> segment.
  There \<^verbatim>\<open>Get\<close> with a \<^verbatim>\<open>PID\<close> location panics at \<^verbatim>\<open>seg[0]\<close>, and so does the whole
  \<^verbatim>\<open>Unmarshal\<close> of a struct with a field bound to \<^verbatim>\<open>PID.0.0\<close>, also when another
  field of the struct could be bound; without that field the bind succeeds.
\<close>

theorem absent_tag_panics:
  "Get (fst (Parse (exhausted\<lparr>reader := minimal\<rparr>)))
       (Some \<lparr>Segment = ''PID'', FieldSeq = 0, Comp = 0, SubComp = 0\<rparr>) = Inl IndexOutOfRange \<and>
   unmarshal_bytes minimal (PtrToStruct [string_field ''PID.0.0'' []]) =
     Some (Inl IndexOutOfRange) \<and>
   unmarshal_bytes minimal
       (PtrToStruct [string_field ''MSH.0'' [], string_field ''PID.0.0'' []]) =
     Some (Inl IndexOutOfRange) \<and>
   unmarshal_bytes minimal (PtrToStruct [string_field ''MSH.0'' []]) =
     Some (Inr ([string_field ''MSH.0'' ''MSH''], None))"
  by code_simp

lemma Find_present: "tag_present m r \<Longrightarrow> Find m r = Inr (found m r, None)"
  by (auto simp: tag_present_def found_def Find_def Get_def GetSegment_def
      split: option.splits list.splits prod.splits)


lemma unmarshal_fields_binds:
  assumes "\<forall>f \<in> set st. Tag f \<noteq> [] \<longrightarrow>
             tag_present m (Tag f) \<and> (Kind f = String \<or> \<not> CanSet f \<or> found m (Tag f) = [])"
  shows "unmarshal_fields m st = Inr (map (bind_field m) st)"
  using assms
proof (induction st)
  case Nil
  then show ?case by simp
next
  case (Cons fld st)
  then have ih: "unmarshal_fields m st = Inr (map (bind_field m) st)" by simp
  show ?case
  proof (cases "Tag fld = []")
    case True
    with ih show ?thesis by (simp add: bind_field_def)
  next
    case False
    with Cons.prems have p: "tag_present m (Tag fld)"
      and k: "Kind fld = String \<or> \<not> CanSet fld \<or> found m (Tag fld) = []" by simp_all
    from Find_present [OF p] have f: "Find m (Tag fld) = Inr (found m (Tag fld), None)" .
    from False f k ih show ?thesis by (auto simp: bind_field_def Let_def)
  qed
qed


section \<open>Trimming\<close>












section \<open>Binding\<close>




text \<open>
  C9, as amended. When every annotated address resolves in the message and every
  annotated field is a string, cannot be set or has an empty addressed value,
  \<^verbatim>\<open>Unmarshal\<close> returns a nil error, and a field whose value is empty or that cannot be
  set is left as it was.
\<close>

theorem Unmarshal_nil_error:
  assumes "\<forall>f \<in> set st. Tag f \<noteq> [] \<longrightarrow>
             tag_present m (Tag f) \<and> (Kind f = String \<or> \<not> CanSet f \<or> found m (Tag f) = [])"
  shows "\<exists>st'. Unmarshal m (PtrToStruct st) = Inr (st', None) \<and>
           length st' = length st \<and>
           (\<forall>i < length st.
              (Tag (st ! i) = [] \<or> found m (Tag (st ! i)) = [] \<or> \<not> CanSet (st ! i)) \<longrightarrow>
              st' ! i = st ! i)"
proof -
  from unmarshal_fields_binds [OF assms]
  have "Unmarshal m (PtrToStruct st) = Inr (map (bind_field m) st, None)"
    by (simp add: Unmarshal_def)
  moreover have "map (bind_field m) st ! i = st ! i"
    if "i < length st" "Tag (st ! i) = [] \<or> found m (Tag (st ! i)) = [] \<or> \<not> CanSet (st ! i)"
    for i
    using that by (auto simp: bind_field_def)
  ultimately show ?thesis by simp
qed

theorem Unmarshal_nil_error_witness:
  "tag_present (fst (Parse (exhausted\<lparr>reader := hl7text\<rparr>))) ''MSH.2'' \<and>
   tag_present (fst (Parse (exhausted\<lparr>reader := hl7text\<rparr>))) ''PID.1'' \<and>
   tag_present (fst (Parse (exhausted\<lparr>reader := hl7text\<rparr>))) ''PID.99'' \<and>
   found (fst (Parse (exhausted\<lparr>reader := hl7text\<rparr>))) ''PID.1'' = [] \<and>
   found (fst (Parse (exhausted\<lparr>reader := hl7text\<rparr>))) ''PID.99'' = [] \<and>
   (\<exists>st'. Unmarshal (fst (Parse (exhausted\<lparr>reader := hl7text\<rparr>)))
            (PtrToStruct
              [\<lparr>Tag = ''MSH.2'', Kind = String, CanSet = False, Value = ''private''\<rparr>,
               \<lparr>Tag = ''PID.1'', Kind = Other, CanSet = True, Value = []\<rparr>,
               \<lparr>Tag = ''PID.99'', Kind = String, CanSet = True, Value = ''default''\<rparr>]) =
          Inr (st', None) \<and>
        st' ! 2 = \<lparr>Tag = ''PID.99'', Kind = String, CanSet = True, Value = ''default''\<rparr>)"
proof -
  let ?m = "fst (Parse (exhausted\<lparr>reader := hl7text\<rparr>))"
  let ?st = "[\<lparr>Tag = ''MSH.2'', Kind = String, CanSet = False, Value = ''private''\<rparr>,
              \<lparr>Tag = ''PID.1'', Kind = Other, CanSet = True, Value = []\<rparr>,
              \<lparr>Tag = ''PID.99'', Kind = String, CanSet = True, Value = ''default''\<rparr>]"
  have p: "tag_present ?m ''MSH.2''" "tag_present ?m ''PID.1''" "tag_present ?m ''PID.99''"
    by code_simp+
  have e: "found ?m ''PID.1'' = []" "found ?m ''PID.99'' = []"
    by code_simp+
  from p e have h: "\<forall>f \<in> set ?st. Tag f \<noteq> [] \<longrightarrow>
      tag_present ?m (Tag f) \<and> (Kind f = String \<or> \<not> CanSet f \<or> found ?m (Tag f) = [])"
    by simp
  from Unmarshal_nil_error [OF h] obtain st' where
    u: "Unmarshal ?m (PtrToStruct ?st) = Inr (st', None)"
    and len: "length st' = length ?st"
    and same: "\<forall>i < length ?st.
        (Tag (?st ! i) = [] \<or> found ?m (Tag (?st ! i)) = [] \<or> \<not> CanSet (?st ! i)) \<longrightarrow>
        st' ! i = ?st ! i"
    by blast
  have two: "(2::nat) < length ?st" by simp
  have "Tag (?st ! 2) = ''PID.99''" by simp
  with e(2) same two have "st' ! 2 = ?st ! 2" by metis
  then have "st' ! 2 = \<lparr>Tag = ''PID.99'', Kind = String, CanSet = True, Value = ''default''\<rparr>"
    by simp
  with u p e show ?thesis by blast
qed

text \<open>
  C9 as stated fails for a struct with a field that is not a string: on the message
  parsed from the minimal header, binding \<^verbatim>\<open>MSH.0\<close> into a settable field of another
  kind ends in the panic of \<^verbatim>\<open>SetString\<close>, not in a nil error.
\<close>

theorem Unmarshal_nil_error_counterexample:
  "unmarshal_bytes minimal
     (PtrToStruct [\<lparr>Tag = ''MSH.0'', Kind = Other, CanSet = True, Value = []\<rparr>]) =
   Some (Inl SetStringOnNonString)"
  by code_simp

end
